theory Spec2Isabelle
  imports Main "HOL-Library.Word"
begin

unbundle bit_operations_syntax

section \<open>Data model of \<^verbatim>\<open>src/main.ts\<close>\<close>

text \<open>
  The plugin reads the version history of the open note from the sync backend, replays
  character diffs between versions written by different devices into a string of
  one-character author labels, run-length compresses that string into groups and emits
  one decoration per group.

  JavaScript values that may be \<^verbatim>\<open>undefined\<close> are options; an exception is a value of
  \<open>error\<close> on the left of a sum. Array indices and counts are \<open>nat\<close>; the write cursor
  \<^verbatim>\<open>offset\<close> is an \<open>int\<close>, because the source subtracts from it. Strings are lists of
  characters; the attributor looks at a content only through the diff, and the label
  buffer holds the characters \<^verbatim>\<open>b\<close>, \<^verbatim>\<open>T\<close> and \<^verbatim>\<open>_\<close> only. An \<^verbatim>\<open>await\<close> is the value
  it waits for.
\<close>

datatype error = TypeError

text \<open>
  \<^verbatim>\<open>interface HistoryItem { mtime: number; user: string; size: number; content?: string }\<close>.
  The objects that \<^verbatim>\<open>getFileVersions\<close> builds carry only \<^verbatim>\<open>user\<close> and \<^verbatim>\<open>content\<close>, so
  \<^verbatim>\<open>mtime\<close> and \<^verbatim>\<open>size\<close> are optional here as well. The field \<^verbatim>\<open>size\<close> is called
  \<open>hsize\<close>.
\<close>

record HistoryItem =
  mtime :: "int option"
  user :: string
  hsize :: "int option"
  content :: "string option"

text \<open>Reading \<^verbatim>\<open>xs[i]\<close> for a non-negative index: \<^verbatim>\<open>undefined\<close> out of range.\<close>

definition js_nth :: "'a list \<Rightarrow> nat \<Rightarrow> 'a option" where
  "js_nth xs i = (if i < length xs then Some (xs ! i) else None)"

text \<open>Reading \<^verbatim>\<open>xs[i]\<close> for an index that a subtraction may have made negative.\<close>

definition js_index :: "'a list \<Rightarrow> int \<Rightarrow> 'a option" where
  "js_index xs i = (if 0 \<le> i then js_nth xs (nat i) else None)"

section \<open>Change-run segmenter\<close>

text \<open>
  The \<^verbatim>\<open>for\<close> loop of \<^verbatim>\<open>findNextChangeIndex\<close>, from index \<open>i\<close> on: the first index whose
  user differs (\<^verbatim>\<open>!=\<close>) from \<open>starting_user\<close>, or the length when there is none.
\<close>

function find_from :: "string list \<Rightarrow> string option \<Rightarrow> nat \<Rightarrow> nat" where
  "find_from users starting_user i =
     (if i < length users
      then (if js_nth users i \<noteq> starting_user then i
            else find_from users starting_user (i + 1))
      else length users)"
  by pat_completeness auto
termination
  by (relation "measure (\<lambda>(users, starting_user, i). length users - i)") auto

declare find_from.simps [simp del]

definition findNextChangeIndex :: "HistoryItem list \<Rightarrow> nat \<Rightarrow> nat" where
  "findNextChangeIndex history startingIndex =
     (let users = map user history;
          starting_user = js_nth users startingIndex
      in find_from users starting_user (startingIndex + 1))"

text \<open>
  The \<^verbatim>\<open>while (current_index != history.length)\<close> loop of \<^verbatim>\<open>getSegmentFromHistory\<close>;
  \<open>change_indices\<close> is the array built so far. The measure of the termination proof
  covers a start beyond the length as well: there \<^verbatim>\<open>findNextChangeIndex\<close> returns the
  length at once.
\<close>

function boundary_loop :: "HistoryItem list \<Rightarrow> nat \<Rightarrow> nat list \<Rightarrow> nat list" where
  "boundary_loop history current_index change_indices =
     (if current_index \<noteq> length history
      then (let next_index = findNextChangeIndex history current_index
            in boundary_loop history next_index (change_indices @ [next_index]))
      else change_indices)"
  by pat_completeness auto
termination
proof (relation "measure (\<lambda>(history, current_index, change_indices).
          if current_index \<le> length history then length history - current_index
          else length history + 1)")
  show "wf (measure (\<lambda>(history, current_index, change_indices).
          if current_index \<le> length history then length history - current_index
          else length history + 1))"
    by simp
next
  fix history :: "HistoryItem list" and current_index :: nat
    and change_indices :: "nat list" and next_index :: nat
  assume ne: "current_index \<noteq> length history"
    and nx: "next_index = findNextChangeIndex history current_index"
  have bounds: "i \<le> length users \<Longrightarrow>
      i \<le> find_from users su i \<and> find_from users su i \<le> length users" for users su i
  proof (induction users su i rule: find_from.induct)
    case (1 users starting_user i)
    show ?case
    proof (cases "i < length users")
      case True
      with "1.IH" show ?thesis
        by (subst (1 2) find_from.simps) auto
    next
      case False
      with "1.prems" show ?thesis
        by (subst (1 2) find_from.simps) simp
    qed
  qed
  show "((history, next_index, change_indices @ [next_index]),
         (history, current_index, change_indices))
        \<in> measure (\<lambda>(history, current_index, change_indices).
          if current_index \<le> length history then length history - current_index
          else length history + 1)"
  proof (cases "current_index < length history")
    case True
    with bounds [of "current_index + 1" "map user history"
        "js_nth (map user history) current_index"] nx
    have "current_index < next_index \<and> next_index \<le> length history"
      by (simp add: findNextChangeIndex_def Let_def)
    then show ?thesis by auto
  next
    case False
    with ne have gt: "length history < current_index" by simp
    then have "find_from (map user history) (js_nth (map user history) current_index)
        (current_index + 1) = length history"
      by (subst find_from.simps) simp
    with nx have "next_index = length history"
      by (simp add: findNextChangeIndex_def Let_def)
    with gt show ?thesis by simp
  qed
qed

declare boundary_loop.simps [simp del]

text \<open>
  The array \<^verbatim>\<open>change_indices\<close> as the pair loop sees it: the loop's result with
  \<^verbatim>\<open>history.length\<close> pushed once more (line 139).
\<close>

definition change_indices_of :: "HistoryItem list \<Rightarrow> nat list" where
  "change_indices_of history = boundary_loop history 0 [] @ [length history]"

section \<open>Pairwise diff attributor\<close>

text \<open>
  \<^verbatim>\<open>getCharFromUser\<close>: the label of a device. Two device names are known; every other
  user gets the label of the padding.
\<close>

definition getCharFromUser :: "string \<Rightarrow> string" where
  "getCharFromUser u =
     (if u = ''bean_machine'' then ''b''
      else if u = ''Bident-of-Thassa.local'' then ''T''
      else ''_'')"

text \<open>
  \<^verbatim>\<open>String.prototype.slice(start, end)\<close>: a negative argument counts from the end of the
  string, both are clamped to the string, and an empty range gives the empty string.
\<close>

definition js_slice :: "string \<Rightarrow> int \<Rightarrow> int \<Rightarrow> string" where
  "js_slice s start_index end_index =
     (let len = int (length s);
          from = (if start_index < 0 then max (len + start_index) 0 else min start_index len);
          to = (if end_index < 0 then max (len + end_index) 0 else min end_index len)
      in take (nat (to - from)) (drop (nat from) s))"

text \<open>
  \<^verbatim>\<open>replace_chars(s, char, start_index, length)\<close>. The parameter \<^verbatim>\<open>length\<close> is \<open>len\<close>;
  \<^verbatim>\<open>char\<close> is a string (one label, or the empty string for a removal) that is repeated
  \<open>len\<close> times.
\<close>

definition replace_chars :: "string \<Rightarrow> string \<Rightarrow> int \<Rightarrow> nat \<Rightarrow> string" where
  "replace_chars s char start_index len =
     (let s = (if start_index + int len > int (length s)
               then s @ replicate (nat (start_index + int len - int (length s))) (CHR ''_'')
               else s)
      in js_slice s 0 start_index
         @ concat (replicate len char)
         @ js_slice s (start_index + int len) (int (length s)))"

text \<open>
  A change object of the package \<^verbatim>\<open>diff\<close>: \<^verbatim>\<open>{count, added, removed, value}\<close>. The source
  reads \<^verbatim>\<open>count\<close>, \<^verbatim>\<open>added\<close> and \<^verbatim>\<open>removed\<close>; \<^verbatim>\<open>value\<close> is the field \<open>cvalue\<close>.
\<close>

record change =
  count :: nat
  added :: bool
  removed :: bool
  cvalue :: string

text \<open>
  \<^verbatim>\<open>Diff.diffChars\<close> is a function of an imported package, so the attributor takes it as
  a parameter: from the two contents, either of which may be missing, to an exception
  or an edit script.
\<close>

type_synonym differ = "string option \<Rightarrow> string option \<Rightarrow> error + change list"

text \<open>
  The body of \<^verbatim>\<open>diff.forEach\<close> (lines 161 to 174): the state is the buffer
  \<^verbatim>\<open>segments\<close> and the cursor \<^verbatim>\<open>offset\<close>.
\<close>

definition replay_change ::
  "HistoryItem \<Rightarrow> HistoryItem \<Rightarrow> string \<times> int \<Rightarrow> change \<Rightarrow> string \<times> int" where
  "replay_change prev_hist next_hist st chg =
     (let segments = fst st; offset = snd st in
      if added chg then
        (replace_chars segments (getCharFromUser (user next_hist)) offset (count chg),
         offset + int (count chg))
      else if removed chg then
        (replace_chars segments '''' offset (count chg),
         offset - int (count chg))
      else
        (replace_chars segments (getCharFromUser (user prev_hist)) offset (count chg),
         offset + int (count chg)))"

text \<open>
  One round of the \<^verbatim>\<open>for\<close> loop over \<^verbatim>\<open>change_indices\<close> (lines 155 to 175). Reading
  \<^verbatim>\<open>.user\<close> of an undefined array element raises a TypeError.
\<close>

definition replay_pair ::
  "differ \<Rightarrow> HistoryItem list \<Rightarrow> nat list \<Rightarrow> string \<Rightarrow> nat \<Rightarrow> error + string" where
  "replay_pair Diff_diffChars history change_indices segments i =
     (case js_index history (int (change_indices ! i) - 1) of
        None \<Rightarrow> Inl TypeError
      | Some prev_hist \<Rightarrow>
          (case js_index history (int (change_indices ! (i + 1)) - 1) of
             None \<Rightarrow> Inl TypeError
           | Some next_hist \<Rightarrow>
               if user prev_hist \<noteq> user next_hist then
                 (case Diff_diffChars (content prev_hist) (content next_hist) of
                    Inl e \<Rightarrow> Inl e
                  | Inr diff \<Rightarrow>
                      Inr (fst (foldl (replay_change prev_hist next_hist) (segments, 0) diff)))
               else Inr segments))"

fun replay_pairs ::
  "differ \<Rightarrow> HistoryItem list \<Rightarrow> nat list \<Rightarrow> string \<Rightarrow> nat list \<Rightarrow> error + string" where
  "replay_pairs Diff_diffChars history change_indices segments [] = Inr segments"
| "replay_pairs Diff_diffChars history change_indices segments (i # is) =
     (case replay_pair Diff_diffChars history change_indices segments i of
        Inl e \<Rightarrow> Inl e
      | Inr segments' \<Rightarrow> replay_pairs Diff_diffChars history change_indices segments' is)"

definition getSegmentFromHistory :: "differ \<Rightarrow> HistoryItem list \<Rightarrow> error + string" where
  "getSegmentFromHistory Diff_diffChars history =
     (let change_indices = change_indices_of history
      in replay_pairs Diff_diffChars history change_indices ''''
           [0 ..< length change_indices - 1])"

section \<open>Run-length compressor\<close>

text \<open>
  \<^verbatim>\<open>getUserColor\<close>: a hash of the name, folded to 24 bits and printed as six hexadecimal
  digits. \<^verbatim>\<open>hash << 5\<close> works on the 32-bit value of \<^verbatim>\<open>hash\<close> and the final \<^verbatim>\<open>&\<close> reads
  only its low 24 bits, so the hash is kept as a 32-bit word. The cache
  \<^verbatim>\<open>userColors\<close> stores the computed colour under the name and returns it on later
  calls; the source calls the function with the literals \<^verbatim>\<open>bean\<close>, \<^verbatim>\<open>Bident\<close> and
  \<^verbatim>\<open>underscore\<close> only, for which the cached and the computed value are the same.
\<close>

definition hash_step :: "32 word \<Rightarrow> char \<Rightarrow> 32 word" where
  "hash_step hash c = of_nat (of_char c) + (push_bit 5 hash - hash)"

definition hex_digit :: "nat \<Rightarrow> char" where
  "hex_digit d = (''0123456789abcdef'') ! d"

function to_hex :: "nat \<Rightarrow> string" where
  "to_hex n = (if n < 16 then [hex_digit n] else to_hex (n div 16) @ [hex_digit (n mod 16)])"
  by pat_completeness auto
termination
  by (relation "measure (\<lambda>n. n)") auto

declare to_hex.simps [simp del]

definition padStart :: "string \<Rightarrow> nat \<Rightarrow> char \<Rightarrow> string" where
  "padStart s n c = replicate (n - length s) c @ s"

definition getUserColor :: "string \<Rightarrow> string" where
  "getUserColor u =
     (let hash = foldl hash_step 0 u
      in CHR ''#'' # padStart (to_hex (unat (hash AND 0x00ffffff))) 6 (CHR ''0''))"

text \<open>
  An element of \<^verbatim>\<open>groups\<close>. The field \<^verbatim>\<open>end\<close> is \<open>end_pos\<close> and \<^verbatim>\<open>char\<close> is
  \<open>label\<close>; \<^verbatim>\<open>color\<close> and \<^verbatim>\<open>char\<close> are undefined when the buffer has no character at the
  index read.
\<close>

record group =
  start :: nat
  end_pos :: nat
  color :: "string option"
  label :: "char option"

text \<open>
  \<^verbatim>\<open>color_dict\<close> after the two overrides of lines 187 and 188, read at a character of the
  buffer or at \<^verbatim>\<open>undefined\<close>.
\<close>

definition color_dict :: "char option \<Rightarrow> string option" where
  "color_dict k =
     (if k = Some (CHR ''b'') then Some ''red''
      else if k = Some (CHR ''T'') then Some ''blue''
      else if k = Some (CHR ''_'') then Some (getUserColor ''underscore'')
      else None)"

definition new_group :: "string \<Rightarrow> nat \<Rightarrow> group" where
  "new_group segments i =
     \<lparr>start = i, end_pos = i + 1,
      color = color_dict (js_nth segments i), label = js_nth segments i\<rparr>"

text \<open>The body of the \<^verbatim>\<open>for\<close> loop of \<^verbatim>\<open>convert_segment_to_groups\<close>.\<close>

definition extend_groups :: "string \<Rightarrow> group list \<Rightarrow> nat \<Rightarrow> group list" where
  "extend_groups segments groups i =
     (if label (last groups) = js_nth segments i
      then butlast groups @ [(last groups)\<lparr>end_pos := end_pos (last groups) + 1\<rparr>]
      else groups @ [new_group segments i])"

definition convert_segment_to_groups :: "string \<Rightarrow> group list" where
  "convert_segment_to_groups segments =
     foldl (extend_groups segments) [new_group segments 0] [1 ..< length segments]"

section \<open>Fetching the history and emitting decorations\<close>

text \<open>
  Modelled from the spec: the type of the items that the sync backend lists is not
  declared in \<^verbatim>\<open>src/\<close>. The source reads \<^verbatim>\<open>uid\<close> and \<^verbatim>\<open>device\<close>; the modification time
  \<open>ts\<close> and the size \<open>isize\<close> are those of the spec's
  \<^verbatim>\<open>{uid, author, modifiedTimeMillis, size}\<close>.
\<close>

record sync_item =
  uid :: string
  device :: string
  ts :: int
  isize :: int

text \<open>
  \<^verbatim>\<open>sync.instance\<close>: \<^verbatim>\<open>getHistory\<close> gives the items of a path, or nothing;
  \<^verbatim>\<open>getContentForVersion\<close> gives the bytes of a version, modelled by the text that the
  UTF-8 decoder makes of them.
\<close>

record sync_instance =
  getHistory :: "string \<Rightarrow> sync_item list option"
  getContentForVersion :: "string \<Rightarrow> string"

text \<open>The callback of \<^verbatim>\<open>history.items.map\<close> (lines 76 to 79).\<close>

definition version_of :: "sync_instance \<Rightarrow> sync_item \<Rightarrow> HistoryItem" where
  "version_of inst item =
     \<lparr>mtime = None, user = device item, hsize = None,
      content = Some (getContentForVersion inst (uid item))\<rparr>"

text \<open>
  \<^verbatim>\<open>getFileVersions\<close>. The leaf is modelled by the path of the file of its view, when the
  view has a file.
\<close>

definition getFileVersions :: "sync_instance option \<Rightarrow> string option \<Rightarrow> HistoryItem list" where
  "getFileVersions sync leaf =
     (case sync of
        None \<Rightarrow> []
      | Some inst \<Rightarrow>
          (case leaf of
             None \<Rightarrow> []
           | Some path \<Rightarrow>
               (case getHistory inst path of
                  None \<Rightarrow> []
                | Some items \<Rightarrow> map (version_of inst) items)))"

text \<open>
  A range added to the \<^verbatim>\<open>RangeSetBuilder\<close>: \<^verbatim>\<open>builder.add(g.start, g.end, mark)\<close>, the mark
  being given by its \<^verbatim>\<open>style\<close> attribute. An undefined colour prints as
  \<^verbatim>\<open>undefined\<close> in the template string.
\<close>

record decoration =
  range_from :: nat
  range_to :: nat
  style :: string

definition mark_group :: "group \<Rightarrow> decoration" where
  "mark_group g =
     \<lparr>range_from = start g, range_to = end_pos g,
      style = ''background-color: ''
        @ (case color g of None \<Rightarrow> ''undefined'' | Some c \<Rightarrow> c)
        @ ''; opacity: 0.5;''\<rparr>"

text \<open>
  \<^verbatim>\<open>history.reverse()\<close> (line 223): the only reordering between the backend's list and
  \<^verbatim>\<open>getSegmentFromHistory\<close>.
\<close>

definition reverse_history :: "HistoryItem list \<Rightarrow> HistoryItem list" where
  "reverse_history history = rev history"

text \<open>
  \<^verbatim>\<open>buildDecorations\<close>. The first argument of the model is the diff function, the
  second the sync plugin, the third the leaf of the active markdown view, when there is
  one. \<^verbatim>\<open>Decoration.none\<close> and the result of a builder to which nothing was added are
  both the empty list of ranges.
\<close>

definition buildDecorations ::
  "differ \<Rightarrow> sync_instance option \<Rightarrow> string option option \<Rightarrow> error + decoration list" where
  "buildDecorations Diff_diffChars sync active_leaf =
     (case active_leaf of
        None \<Rightarrow> Inr []
      | Some leaf \<Rightarrow>
          (let history = getFileVersions sync leaf in
           if length history = 0 then Inr []
           else if length history > 1 then
             (case getSegmentFromHistory Diff_diffChars (reverse_history history) of
                Inl e \<Rightarrow> Inl e
              | Inr segment \<Rightarrow> Inr (map mark_group (convert_segment_to_groups segment)))
           else Inr []))"

section \<open>A character diff\<close>

text \<open>
  Modelled from the spec: \<^verbatim>\<open>Diff.diffChars\<close> belongs to the imported package \<^verbatim>\<open>diff\<close> and
  is not in \<^verbatim>\<open>src/\<close>. The spec asks for a minimal character-level edit script, an ordered
  sequence of equal, inserted and deleted runs such that the equal and inserted runs
  give the later content and the equal and deleted runs the earlier one. \<open>edit_script\<close>
  computes such a script one character at a time, keeping a common first character and
  otherwise taking the cheaper of deleting and inserting (deleting on a tie);
  \<open>diffChars\<close> merges neighbouring edits of one kind into runs. On a missing content
  the package fails before it compares anything, since it splits both arguments into
  characters first; the model returns the TypeError.
\<close>

datatype edit = Keep char | Del char | Ins char

fun edit_cost :: "edit list \<Rightarrow> nat" where
  "edit_cost [] = 0"
| "edit_cost (Keep c # es) = edit_cost es"
| "edit_cost (e # es) = 1 + edit_cost es"

fun edit_script :: "string \<Rightarrow> string \<Rightarrow> edit list" where
  "edit_script [] ys = map Ins ys"
| "edit_script (x # xs) [] = map Del (x # xs)"
| "edit_script (x # xs) (y # ys) =
     (if x = y then Keep x # edit_script xs ys
      else (let d = Del x # edit_script xs (y # ys);
                i = Ins y # edit_script (x # xs) ys
            in if edit_cost d \<le> edit_cost i then d else i))"

fun run_of :: "edit \<Rightarrow> change" where
  "run_of (Keep c) = \<lparr>count = 1, added = False, removed = False, cvalue = [c]\<rparr>"
| "run_of (Del c) = \<lparr>count = 1, added = False, removed = True, cvalue = [c]\<rparr>"
| "run_of (Ins c) = \<lparr>count = 1, added = True, removed = False, cvalue = [c]\<rparr>"

fun push_edit :: "edit \<Rightarrow> change list \<Rightarrow> change list" where
  "push_edit e [] = [run_of e]"
| "push_edit e (r # rs) =
     (if added (run_of e) = added r \<and> removed (run_of e) = removed r
      then r\<lparr>count := count r + 1, cvalue := cvalue (run_of e) @ cvalue r\<rparr> # rs
      else run_of e # r # rs)"

definition diffChars :: differ where
  "diffChars old_content new_content =
     (case old_content of
        None \<Rightarrow> Inl TypeError
      | Some old \<Rightarrow>
          (case new_content of
             None \<Rightarrow> Inl TypeError
           | Some new \<Rightarrow> Inr (foldr push_edit (edit_script old new) [])))"

section \<open>The modelled diff\<close>

text \<open>
  The scripts of \<open>diffChars\<close> preserve the contents: the runs that are not removed spell
  the later content, the runs that are not added spell the earlier one, and the count
  of a run is the length of its text.
\<close>

lemma push_edit_new_side:
  "concat (map cvalue (filter (\<lambda>r. \<not> removed r) (push_edit e rs)))
   = (if removed (run_of e) then [] else cvalue (run_of e))
     @ concat (map cvalue (filter (\<lambda>r. \<not> removed r) rs))"
  by (cases rs) auto

lemma push_edit_old_side:
  "concat (map cvalue (filter (\<lambda>r. \<not> added r) (push_edit e rs)))
   = (if added (run_of e) then [] else cvalue (run_of e))
     @ concat (map cvalue (filter (\<lambda>r. \<not> added r) rs))"
  by (cases rs) auto

lemma push_edit_counts:
  "\<forall>r \<in> set rs. count r = length (cvalue r) \<Longrightarrow>
   \<forall>r \<in> set (push_edit e rs). count r = length (cvalue r)"
  by (cases rs; cases e) auto

lemma runs_counts: "\<forall>r \<in> set (foldr push_edit es []). count r = length (cvalue r)"
proof (induction es)
  case Nil
  show ?case by simp
next
  case (Cons e es)
  from push_edit_counts [OF Cons.IH] show ?case by simp
qed

lemma runs_of_insertions:
  "concat (map cvalue (filter (\<lambda>r. \<not> removed r) (foldr push_edit (map Ins ys) []))) = ys
   \<and> concat (map cvalue (filter (\<lambda>r. \<not> added r) (foldr push_edit (map Ins ys) []))) = []"
  by (induction ys) (simp_all add: push_edit_new_side push_edit_old_side)

lemma runs_of_deletions:
  "concat (map cvalue (filter (\<lambda>r. \<not> removed r) (foldr push_edit (map Del xs) []))) = []
   \<and> concat (map cvalue (filter (\<lambda>r. \<not> added r) (foldr push_edit (map Del xs) []))) = xs"
  by (induction xs) (simp_all add: push_edit_new_side push_edit_old_side)

lemma edit_script_preserves_content:
  "concat (map cvalue (filter (\<lambda>r. \<not> removed r) (foldr push_edit (edit_script xs ys) []))) = ys
   \<and> concat (map cvalue (filter (\<lambda>r. \<not> added r) (foldr push_edit (edit_script xs ys) []))) = xs"
proof (induction xs ys rule: edit_script.induct)
  case (1 ys)
  show ?case using runs_of_insertions [of ys] by simp
next
  case (2 x xs)
  show ?case using runs_of_deletions [of "x # xs"] by simp
next
  case (3 x xs y ys)
  show ?case
  proof (cases "x = y")
    case True
    with "3.IH"(1) show ?thesis
      by (simp add: push_edit_new_side push_edit_old_side)
  next
    case False
    with "3.IH"(2,3) show ?thesis
      by (simp add: Let_def push_edit_new_side push_edit_old_side)
  qed
qed

lemma diffChars_preserves_content:
  "diffChars (Some old) (Some new) = Inr script \<Longrightarrow>
   concat (map cvalue (filter (\<lambda>r. \<not> removed r) script)) = new
   \<and> concat (map cvalue (filter (\<lambda>r. \<not> added r) script)) = old
   \<and> (\<forall>r \<in> set script. count r = length (cvalue r))"
  using edit_script_preserves_content [of old new] runs_counts [of "edit_script old new"]
  by (auto simp: diffChars_def)

section \<open>Properties of the change-run segmenter\<close>

lemma find_from_bounds:
  "i \<le> length users \<Longrightarrow> i \<le> find_from users su i \<and> find_from users su i \<le> length users"
proof (induction users su i rule: find_from.induct)
  case (1 users starting_user i)
  show ?case
  proof (cases "i < length users")
    case True
    with "1.IH" show ?thesis
      by (subst (1 2) find_from.simps) auto
  next
    case False
    with "1.prems" show ?thesis
      by (subst (1 2) find_from.simps) simp
  qed
qed

lemma findNextChangeIndex_gt:
  "current_index < length history \<Longrightarrow> current_index < findNextChangeIndex history current_index"
  using find_from_bounds
    [of "current_index + 1" "map user history" "js_nth (map user history) current_index"]
  by (simp add: findNextChangeIndex_def Let_def)

lemma findNextChangeIndex_le:
  "current_index < length history \<Longrightarrow> findNextChangeIndex history current_index \<le> length history"
  using find_from_bounds
    [of "current_index + 1" "map user history" "js_nth (map user history) current_index"]
  by (simp add: findNextChangeIndex_def Let_def)

text \<open>
  What the \<^verbatim>\<open>while\<close> loop appends when it starts within the list: a strictly increasing
  run of indices above the start, at most one per remaining snapshot, ending with the
  length of the list.
\<close>

lemma boundary_loop_shape:
  "current_index \<le> length history \<Longrightarrow>
   \<exists>rest. boundary_loop history current_index acc = acc @ rest
      \<and> sorted_wrt (<) rest
      \<and> (\<forall>x \<in> set rest. current_index < x \<and> x \<le> length history)
      \<and> length rest \<le> length history - current_index
      \<and> (current_index < length history \<longrightarrow> rest \<noteq> [] \<and> last rest = length history)
      \<and> (current_index = length history \<longrightarrow> rest = [])"
proof (induction history current_index acc rule: boundary_loop.induct)
  case (1 history current_index change_indices)
  show ?case
  proof (cases "current_index = length history")
    case True
    then show ?thesis
      by (subst boundary_loop.simps) simp
  next
    case False
    with "1.prems" have lt: "current_index < length history" by simp
    define next_index where "next_index = findNextChangeIndex history current_index"
    have gt: "current_index < next_index" and le: "next_index \<le> length history"
      using findNextChangeIndex_gt [OF lt] findNextChangeIndex_le [OF lt]
      by (simp_all add: next_index_def)
    from "1.IH" [OF False next_index_def le]
    obtain rest where r: "boundary_loop history next_index (change_indices @ [next_index])
          = (change_indices @ [next_index]) @ rest"
      and s: "sorted_wrt (<) rest"
      and b: "\<forall>x \<in> set rest. next_index < x \<and> x \<le> length history"
      and n: "length rest \<le> length history - next_index"
      and l: "next_index < length history \<longrightarrow> rest \<noteq> [] \<and> last rest = length history"
      and e: "next_index = length history \<longrightarrow> rest = []"
      by blast
    have unfold: "boundary_loop history current_index change_indices
        = change_indices @ (next_index # rest)"
      using False r by (subst boundary_loop.simps) (simp add: next_index_def Let_def)
    have "sorted_wrt (<) (next_index # rest)" using s b by simp
    moreover have "\<forall>x \<in> set (next_index # rest). current_index < x \<and> x \<le> length history"
      using b gt le by auto
    moreover have "length (next_index # rest) \<le> length history - current_index"
      using n gt le by simp
    moreover have "last (next_index # rest) = length history"
      using l e le by (cases "next_index = length history") auto
    ultimately show ?thesis using unfold False by blast
  qed
qed

text \<open>
  C10. The boundary-scanning loop terminates. While \<open>current_index\<close> is below the length
  of the history, \<^verbatim>\<open>findNextChangeIndex\<close> returns an index that is strictly greater and
  at most the length, so the loop started there appends at most one index per
  remaining snapshot and stops with the length as its last index. (The loop itself is
  the total function \<open>boundary_loop\<close>, whose termination proof uses this progress.)
\<close>

theorem boundary_scan_terminates:
  "current_index < length history \<Longrightarrow>
     current_index < findNextChangeIndex history current_index
   \<and> findNextChangeIndex history current_index \<le> length history
   \<and> length (boundary_loop history current_index change_indices)
        \<le> length change_indices + (length history - current_index)
   \<and> last (boundary_loop history current_index change_indices) = length history"
proof -
  assume lt: "current_index < length history"
  then have "current_index \<le> length history" by simp
  from boundary_loop_shape [OF this, of change_indices] lt
  obtain rest where "boundary_loop history current_index change_indices = change_indices @ rest"
    and "length rest \<le> length history - current_index"
    and "rest \<noteq> []" and "last rest = length history"
    by blast
  then show ?thesis
    using findNextChangeIndex_gt [OF lt] findNextChangeIndex_le [OF lt] by simp
qed

theorem boundary_scan_terminates_witness:
  "(0::nat) < length
      [\<lparr>mtime = None, user = ''bean_machine'', hsize = None, content = Some ''ab''\<rparr>,
       \<lparr>mtime = None, user = ''bean_machine'', hsize = None, content = Some ''abc''\<rparr>,
       \<lparr>mtime = None, user = ''Bident-of-Thassa.local'', hsize = None, content = Some ''abcd''\<rparr>]
   \<and> findNextChangeIndex
      [\<lparr>mtime = None, user = ''bean_machine'', hsize = None, content = Some ''ab''\<rparr>,
       \<lparr>mtime = None, user = ''bean_machine'', hsize = None, content = Some ''abc''\<rparr>,
       \<lparr>mtime = None, user = ''Bident-of-Thassa.local'', hsize = None, content = Some ''abcd''\<rparr>]
      0 = 2
   \<and> boundary_loop
      [\<lparr>mtime = None, user = ''bean_machine'', hsize = None, content = Some ''ab''\<rparr>,
       \<lparr>mtime = None, user = ''bean_machine'', hsize = None, content = Some ''abc''\<rparr>,
       \<lparr>mtime = None, user = ''Bident-of-Thassa.local'', hsize = None, content = Some ''abcd''\<rparr>]
      0 [] = [2, 3]"
  using boundary_scan_terminates [of 0
      "[\<lparr>mtime = None, user = ''bean_machine'', hsize = None, content = Some ''ab''\<rparr>,
        \<lparr>mtime = None, user = ''bean_machine'', hsize = None, content = Some ''abc''\<rparr>,
        \<lparr>mtime = None, user = ''Bident-of-Thassa.local'', hsize = None,
          content = Some ''abcd''\<rparr>]" "[]"]
  by (simp add: boundary_loop.simps findNextChangeIndex_def find_from.simps js_nth_def)

text \<open>
  C4. The claim asks for a strictly increasing list of boundary indices that ends with
  the length of the snapshot list once. For a history that is not empty the loop
  already ends its scan with the length, and line 139 pushes the length again: the
  array is a strictly increasing scan ending with the length, followed by the length a
  second time, so it is neither strictly increasing nor free of repetitions.
\<close>

theorem change_indices_repeat_sentinel:
  "history \<noteq> [] \<Longrightarrow>
   (\<exists>scan. change_indices_of history = scan @ [length history]
      \<and> scan \<noteq> [] \<and> last scan = length history \<and> sorted_wrt (<) scan)
   \<and> \<not> sorted_wrt (<) (change_indices_of history)
   \<and> \<not> distinct (change_indices_of history)"
proof -
  assume "history \<noteq> []"
  then have lt: "0 < length history" by simp
  from boundary_loop_shape [of 0 history "[]"] lt
  obtain scan where sc: "boundary_loop history 0 [] = scan" and so: "sorted_wrt (<) scan"
    and ne: "scan \<noteq> []" and la: "last scan = length history"
    by auto
  have eq: "change_indices_of history = scan @ [length history]"
    by (simp add: change_indices_of_def sc)
  from ne la have mem: "length history \<in> set scan"
    using last_in_set by metis
  then have "\<not> sorted_wrt (<) (scan @ [length history])"
    by (auto simp: sorted_wrt_append)
  moreover from mem have "\<not> distinct (scan @ [length history])" by simp
  ultimately show ?thesis using eq so ne la by auto
qed

theorem change_indices_repeat_sentinel_witness:
  "[\<lparr>mtime = None, user = ''bean_machine'', hsize = None, content = Some ''hello''\<rparr>,
    \<lparr>mtime = None, user = ''Bident-of-Thassa.local'', hsize = None,
      content = Some ''hello world''\<rparr>] \<noteq> []
   \<and> change_indices_of
       [\<lparr>mtime = None, user = ''bean_machine'', hsize = None, content = Some ''hello''\<rparr>,
        \<lparr>mtime = None, user = ''Bident-of-Thassa.local'', hsize = None,
          content = Some ''hello world''\<rparr>] = [1, 2, 2]
   \<and> \<not> sorted_wrt (<) (change_indices_of
       [\<lparr>mtime = None, user = ''bean_machine'', hsize = None, content = Some ''hello''\<rparr>,
        \<lparr>mtime = None, user = ''Bident-of-Thassa.local'', hsize = None,
          content = Some ''hello world''\<rparr>])"
  using change_indices_repeat_sentinel
    [of "[\<lparr>mtime = None, user = ''bean_machine'', hsize = None, content = Some ''hello''\<rparr>,
          \<lparr>mtime = None, user = ''Bident-of-Thassa.local'', hsize = None,
            content = Some ''hello world''\<rparr>]"]
  by (simp add: change_indices_of_def boundary_loop.simps findNextChangeIndex_def
      find_from.simps js_nth_def)


section \<open>Properties of the diff replay\<close>

lemma getCharFromUser_single: "\<exists>c. getCharFromUser u = [c]"
  by (simp add: getCharFromUser_def)

text \<open>
  C3. The claim asks that a deleted run removes its characters at the cursor and leaves
  the cursor where it is. When the run lies within the buffer the source does remove
  exactly \<^verbatim>\<open>count\<close> characters at \<^verbatim>\<open>offset\<close>, but line 168 then subtracts \<^verbatim>\<open>count\<close> from
  \<^verbatim>\<open>offset\<close>: the cursor moves back by the length of the removed run, and the next run
  writes that many places before the removed span.
\<close>

theorem deleted_run_moves_cursor_back:
  "\<not> added chg \<Longrightarrow> removed chg \<Longrightarrow> 0 \<le> offset \<Longrightarrow>
   offset + int (count chg) \<le> int (length segments) \<Longrightarrow>
   replay_change prev_hist next_hist (segments, offset) chg
     = (take (nat offset) segments @ drop (nat offset + count chg) segments,
        offset - int (count chg))"
proof -
  assume a: "\<not> added chg" and r: "removed chg" and o: "0 \<le> offset"
    and b: "offset + int (count chg) \<le> int (length segments)"
  have n: "nat (offset + int (count chg)) = nat offset + count chg"
    using o by (simp add: nat_add_distrib)
  have l: "js_slice segments 0 offset = take (nat offset) segments"
    using o b by (simp add: js_slice_def Let_def min_def)
  have h: "js_slice segments (offset + int (count chg)) (int (length segments))
      = drop (nat offset + count chg) segments"
    using o b n by (simp add: js_slice_def Let_def min_def)
  show ?thesis
    using a r b l h by (simp add: replay_change_def replace_chars_def Let_def)
qed

theorem deleted_run_moves_cursor_back_witness:
  "replay_change
      \<lparr>mtime = None, user = ''bean_machine'', hsize = None, content = Some ''abc''\<rparr>
      \<lparr>mtime = None, user = ''Bident-of-Thassa.local'', hsize = None, content = Some ''ac''\<rparr>
      (''bTb'', 1) \<lparr>count = 1, added = False, removed = True, cvalue = ''b''\<rparr>
    = (''bb'', 0)
   \<and> foldl (replay_change
      \<lparr>mtime = None, user = ''bean_machine'', hsize = None, content = Some ''abc''\<rparr>
      \<lparr>mtime = None, user = ''Bident-of-Thassa.local'', hsize = None, content = Some ''ac''\<rparr>)
      (''TTT'', 1)
      [\<lparr>count = 1, added = False, removed = True, cvalue = ''b''\<rparr>,
       \<lparr>count = 1, added = False, removed = False, cvalue = ''c''\<rparr>]
    = (''bT'', 1)"
  using deleted_run_moves_cursor_back
    [of "\<lparr>count = 1, added = False, removed = True, cvalue = ''b''\<rparr>" 1 "''bTb''"
      "\<lparr>mtime = None, user = ''bean_machine'', hsize = None, content = Some ''abc''\<rparr>"
      "\<lparr>mtime = None, user = ''Bident-of-Thassa.local'', hsize = None,
         content = Some ''ac''\<rparr>"]
  by (simp add: replay_change_def replace_chars_def js_slice_def getCharFromUser_def Let_def)

text \<open>
  A script without removed runs, replayed from a cursor within the buffer, makes the
  buffer as long as the text it has written, and no shorter than it was.
\<close>

lemma length_replace_chars_label:
  "0 \<le> offset \<Longrightarrow>
   length (replace_chars s [c] offset len) = max (length s) (nat offset + len)"
  by (auto simp: replace_chars_def js_slice_def Let_def min_def max_def nat_add_distrib
      concat_replicate_trivial)

lemma replay_without_removal:
  "\<forall>chg \<in> set script. \<not> removed chg \<Longrightarrow> 0 \<le> offset \<Longrightarrow>
   offset \<le> int (length segments) \<Longrightarrow>
   length (fst (foldl (replay_change prev_hist next_hist) (segments, offset) script))
     = max (length segments) (nat offset + sum_list (map count script))
   \<and> snd (foldl (replay_change prev_hist next_hist) (segments, offset) script)
     = offset + int (sum_list (map count script))"
proof (induction script arbitrary: segments offset)
  case Nil
  then show ?case by simp
next
  case (Cons chg script)
  obtain a where a: "getCharFromUser (user prev_hist) = [a]"
    using getCharFromUser_single by blast
  obtain b where b: "getCharFromUser (user next_hist) = [b]"
    using getCharFromUser_single by blast
  from Cons.prems have nr: "\<not> removed chg" and rest: "\<forall>c \<in> set script. \<not> removed c"
    by simp_all
  obtain c where step: "replay_change prev_hist next_hist (segments, offset) chg
      = (replace_chars segments [c] offset (count chg), offset + int (count chg))"
    using nr a b by (cases "added chg") (simp_all add: replay_change_def Let_def)
  have pos: "0 \<le> offset + int (count chg)" using Cons.prems by simp
  have len: "length (replace_chars segments [c] offset (count chg))
      = max (length segments) (nat offset + count chg)"
    using length_replace_chars_label [OF Cons.prems(2)] .
  have within: "offset + int (count chg)
      \<le> int (length (replace_chars segments [c] offset (count chg)))"
    using Cons.prems(2) by (simp add: len)
  from Cons.IH [OF rest pos within] len
  show ?case
    using Cons.prems(2) by (simp add: step nat_add_distrib)
qed

text \<open>
  C2. The claim asks that after a pair's replay the buffer is as long as the later
  snapshot's content, and that \<^verbatim>\<open>abcde\<close> followed by another author's \<^verbatim>\<open>ace\<close> gives a
  buffer of length 3. The edit script of that pair keeps \<^verbatim>\<open>a\<close>, deletes \<^verbatim>\<open>b\<close>, keeps
  \<^verbatim>\<open>c\<close>, deletes \<^verbatim>\<open>d\<close> and keeps \<^verbatim>\<open>e\<close>; each deletion sends the cursor back to 0, so
  every kept character is written at index 0 and the buffer has length 1.
\<close>

theorem deletion_case_buffer_length:
  "getSegmentFromHistory diffChars
     [\<lparr>mtime = None, user = ''bean_machine'', hsize = None, content = Some ''abcde''\<rparr>,
      \<lparr>mtime = None, user = ''Bident-of-Thassa.local'', hsize = None, content = Some ''ace''\<rparr>]
   = Inr ''b''"
  by code_simp

section \<open>Properties of the compressor and of the rebuild\<close>

lemma color_underscore: "getUserColor ''underscore'' = ''#cf02ba''"
  by (simp add: getUserColor_def hash_step_def to_hex.simps padStart_def hex_digit_def)

text \<open>
  For a buffer that is not empty the groups are a partition of its indices: the first
  group starts at 0, the last ends at the length of the buffer, each group ends where
  the next starts and has another label, and every index of a group carries the
  group's label.
\<close>

lemma extend_groups_invariant:
  assumes m: "m < length segments"
    and ne: "groups \<noteq> []"
    and hd0: "start (hd groups) = 0"
    and lastm: "end_pos (last groups) = m"
    and adj: "successively (\<lambda>g h. end_pos g = start h \<and> label g \<noteq> label h) groups"
    and each: "\<forall>g \<in> set groups. start g < end_pos g
        \<and> (\<forall>j. start g \<le> j \<and> j < end_pos g \<longrightarrow> label g = Some (segments ! j))"
  shows "extend_groups segments groups m \<noteq> []
    \<and> start (hd (extend_groups segments groups m)) = 0
    \<and> end_pos (last (extend_groups segments groups m)) = Suc m
    \<and> successively (\<lambda>g h. end_pos g = start h \<and> label g \<noteq> label h)
        (extend_groups segments groups m)
    \<and> (\<forall>g \<in> set (extend_groups segments groups m). start g < end_pos g
        \<and> (\<forall>j. start g \<le> j \<and> j < end_pos g \<longrightarrow> label g = Some (segments ! j)))"
proof -
  obtain bs l where gs: "groups = bs @ [l]"
    using ne by (metis append_butlast_last_id)
  from lastm gs have lm: "end_pos l = m" by simp
  from each gs have el: "start l < end_pos l"
    and ll: "\<forall>j. start l \<le> j \<and> j < end_pos l \<longrightarrow> label l = Some (segments ! j)"
    and eb: "\<forall>g \<in> set bs. start g < end_pos g
        \<and> (\<forall>j. start g \<le> j \<and> j < end_pos g \<longrightarrow> label g = Some (segments ! j))"
    by auto
  from adj gs have ab: "successively (\<lambda>g h. end_pos g = start h \<and> label g \<noteq> label h) bs"
    and al: "bs = [] \<or> (end_pos (last bs) = start l \<and> label (last bs) \<noteq> label l)"
    by (auto simp: successively_append_iff)
  show ?thesis
  proof (cases "label l = Some (segments ! m)")
    case True
    then have ex: "extend_groups segments groups m = bs @ [l\<lparr>end_pos := end_pos l + 1\<rparr>]"
      using m gs by (simp add: extend_groups_def js_nth_def)
    have "start (hd (bs @ [l\<lparr>end_pos := end_pos l + 1\<rparr>])) = 0"
      using hd0 gs by (cases bs) auto
    moreover have "successively (\<lambda>g h. end_pos g = start h \<and> label g \<noteq> label h)
        (bs @ [l\<lparr>end_pos := end_pos l + 1\<rparr>])"
      using ab al by (auto simp: successively_append_iff)
    moreover have "\<forall>j. start l \<le> j \<and> j < end_pos l + 1 \<longrightarrow> label l = Some (segments ! j)"
      using ll lm True by (auto simp: less_Suc_eq)
    ultimately show ?thesis
      using ex lm el eb by auto
  next
    case False
    then have ex: "extend_groups segments groups m = bs @ [l, new_group segments m]"
      using m gs by (simp add: extend_groups_def js_nth_def)
    have "start (hd (bs @ [l, new_group segments m])) = 0"
      using hd0 gs by (cases bs) auto
    moreover have "successively (\<lambda>g h. end_pos g = start h \<and> label g \<noteq> label h)
        (bs @ [l, new_group segments m])"
      using ab al lm False m
      by (auto simp: successively_append_iff new_group_def js_nth_def)
    moreover have "\<forall>j. start (new_group segments m) \<le> j \<and> j < end_pos (new_group segments m)
        \<longrightarrow> label (new_group segments m) = Some (segments ! j)"
      using m by (auto simp: new_group_def js_nth_def less_Suc_eq)
    ultimately show ?thesis
      using ex el ll eb m by (auto simp: new_group_def)
  qed
qed

lemma convert_groups_prefix:
  assumes "Suc m \<le> length segments"
  shows "foldl (extend_groups segments) [new_group segments 0] [1 ..< Suc m] \<noteq> []
    \<and> start (hd (foldl (extend_groups segments) [new_group segments 0] [1 ..< Suc m])) = 0
    \<and> end_pos (last (foldl (extend_groups segments) [new_group segments 0] [1 ..< Suc m])) = Suc m
    \<and> successively (\<lambda>g h. end_pos g = start h \<and> label g \<noteq> label h)
        (foldl (extend_groups segments) [new_group segments 0] [1 ..< Suc m])
    \<and> (\<forall>g \<in> set (foldl (extend_groups segments) [new_group segments 0] [1 ..< Suc m]).
          start g < end_pos g
        \<and> (\<forall>j. start g \<le> j \<and> j < end_pos g \<longrightarrow> label g = Some (segments ! j)))"
  using assms
proof (induction m)
  case 0
  then show ?case by (auto simp: new_group_def js_nth_def)
next
  case (Suc m)
  then have lt: "Suc m < length segments" and le: "Suc m \<le> length segments" by simp_all
  have step: "foldl (extend_groups segments) [new_group segments 0] [1 ..< Suc (Suc m)]
      = extend_groups segments
          (foldl (extend_groups segments) [new_group segments 0] [1 ..< Suc m]) (Suc m)"
    by simp
  from Suc.IH [OF le] extend_groups_invariant [OF lt, of
      "foldl (extend_groups segments) [new_group segments 0] [1 ..< Suc m]"]
  show ?case unfolding step by blast
qed

lemma convert_groups_partition:
  assumes "segments \<noteq> []"
  shows "convert_segment_to_groups segments \<noteq> []
    \<and> start (hd (convert_segment_to_groups segments)) = 0
    \<and> end_pos (last (convert_segment_to_groups segments)) = length segments
    \<and> successively (\<lambda>g h. end_pos g = start h \<and> label g \<noteq> label h)
        (convert_segment_to_groups segments)
    \<and> (\<forall>g \<in> set (convert_segment_to_groups segments). start g < end_pos g
        \<and> (\<forall>j. start g \<le> j \<and> j < end_pos g \<longrightarrow> label g = Some (segments ! j)))"
proof -
  from assms obtain m where m: "length segments = Suc m"
    by (cases segments) auto
  then have "Suc m \<le> length segments" by simp
  from convert_groups_prefix [OF this] show ?thesis
    unfolding convert_segment_to_groups_def m .
qed

text \<open>
  C5. The claim asks that the groups partition the indices below the buffer's length,
  the empty buffer included. \<^verbatim>\<open>convert_segment_to_groups\<close> starts from the group of
  index 0 before it looks at the buffer, so for the empty buffer it returns one group
  from 0 to 1 with an undefined label. The pipeline does produce the empty buffer: two
  versions by one device give no pair to replay, and the rebuild then emits a
  decoration over the first character with an undefined colour.
\<close>

theorem empty_buffer_one_group:
  "convert_segment_to_groups '''' = [\<lparr>start = 0, end_pos = 1, color = None, label = None\<rparr>]
   \<and> getSegmentFromHistory diffChars
       [\<lparr>mtime = None, user = ''bean_machine'', hsize = None, content = Some ''a''\<rparr>,
        \<lparr>mtime = None, user = ''bean_machine'', hsize = None, content = Some ''ab''\<rparr>]
     = Inr ''''
   \<and> buildDecorations diffChars
       (Some \<lparr>getHistory = (\<lambda>path. Some
           [\<lparr>uid = ''2'', device = ''bean_machine'', ts = 2, isize = 2\<rparr>,
            \<lparr>uid = ''1'', device = ''bean_machine'', ts = 1, isize = 1\<rparr>]),
          getContentForVersion = (\<lambda>u. if u = ''1'' then ''a'' else ''ab'')\<rparr>)
       (Some (Some ''note.md''))
     = Inr [\<lparr>range_from = 0, range_to = 1,
             style = ''background-color: undefined; opacity: 0.5;''\<rparr>]"
  by code_simp

text \<open>
  C8. A history of no snapshot or of one snapshot gives no decoration, as the missing
  sync plugin and the missing active view do: the groups are computed only for a
  history of more than one snapshot.
\<close>

theorem short_history_no_decorations:
  "length (getFileVersions sync leaf) \<le> 1 \<Longrightarrow>
   buildDecorations Diff_diffChars sync (Some leaf) = Inr []
   \<and> buildDecorations Diff_diffChars None (Some leaf) = Inr []
   \<and> buildDecorations Diff_diffChars sync None = Inr []"
  by (auto simp: buildDecorations_def getFileVersions_def Let_def)

theorem short_history_no_decorations_witness:
  "length (getFileVersions
       (Some \<lparr>getHistory = (\<lambda>path. Some
           [\<lparr>uid = ''1'', device = ''bean_machine'', ts = 1, isize = 5\<rparr>]),
          getContentForVersion = (\<lambda>u. ''hello'')\<rparr>)
       (Some ''note.md'')) = 1
   \<and> buildDecorations diffChars
       (Some \<lparr>getHistory = (\<lambda>path. Some
           [\<lparr>uid = ''1'', device = ''bean_machine'', ts = 1, isize = 5\<rparr>]),
          getContentForVersion = (\<lambda>u. ''hello'')\<rparr>)
       (Some (Some ''note.md'')) = Inr []"
  using short_history_no_decorations
    [of "Some \<lparr>getHistory = (\<lambda>path. Some
           [\<lparr>uid = ''1'', device = ''bean_machine'', ts = 1, isize = 5\<rparr>]),
          getContentForVersion = (\<lambda>u. ''hello'')\<rparr>"
      "Some ''note.md''" diffChars]
  by (simp add: getFileVersions_def)

text \<open>
  Reversing a list whose timestamps strictly decrease sorts it by timestamp.
\<close>

lemma insort_key_last:
  "\<forall>y \<in> set ys. f y < f x \<Longrightarrow> insort_key f x ys = ys @ [x]"
  by (induction ys) auto

lemma sort_key_strictly_decreasing:
  "sorted_wrt (\<lambda>a b. f b < f a) xs \<Longrightarrow> sort_key f xs = rev xs"
  by (induction xs) (auto simp: insort_key_last)

text \<open>
  C6, as stated, fails: the backend's list is reversed, not sorted. A list that is
  already oldest first is processed newest first.
\<close>

theorem sequencer_counterexample:
  "reverse_history (getFileVersions
       (Some \<lparr>getHistory = (\<lambda>path. Some
           [\<lparr>uid = ''1'', device = ''bean_machine'', ts = 1, isize = 5\<rparr>,
            \<lparr>uid = ''2'', device = ''Bident-of-Thassa.local'', ts = 2, isize = 11\<rparr>]),
          getContentForVersion = (\<lambda>u. if u = ''1'' then ''hello'' else ''hello world'')\<rparr>)
       (Some ''note.md''))
   \<noteq> map (version_of
       \<lparr>getHistory = (\<lambda>path. Some
           [\<lparr>uid = ''1'', device = ''bean_machine'', ts = 1, isize = 5\<rparr>,
            \<lparr>uid = ''2'', device = ''Bident-of-Thassa.local'', ts = 2, isize = 11\<rparr>]),
          getContentForVersion = (\<lambda>u. if u = ''1'' then ''hello'' else ''hello world'')\<rparr>)
       (sort_key ts
           [\<lparr>uid = ''1'', device = ''bean_machine'', ts = 1, isize = 5\<rparr>,
            \<lparr>uid = ''2'', device = ''Bident-of-Thassa.local'', ts = 2, isize = 11\<rparr>])"
  by (simp add: reverse_history_def getFileVersions_def version_of_def)

text \<open>
  C6, amended. The pipeline processes the snapshots in the reverse of the order in
  which the backend lists them, whatever their timestamps: for a history of more than
  one snapshot the attributor receives the reversed list. That is the oldest-first
  order when the backend lists the versions newest first with strictly decreasing
  timestamps.
\<close>

theorem sequencer_reverses:
  "getHistory inst path = Some items \<Longrightarrow>
   reverse_history (getFileVersions (Some inst) (Some path))
     = map (version_of inst) (rev items)
   \<and> buildDecorations Diff_diffChars (Some inst) (Some (Some path))
     = (if length items > 1
        then (case getSegmentFromHistory Diff_diffChars (map (version_of inst) (rev items)) of
                Inl e \<Rightarrow> Inl e
              | Inr segment \<Rightarrow> Inr (map mark_group (convert_segment_to_groups segment)))
        else Inr [])
   \<and> (sorted_wrt (\<lambda>a b. ts b < ts a) items \<longrightarrow> rev items = sort_key ts items)"
  by (auto simp: reverse_history_def getFileVersions_def buildDecorations_def Let_def rev_map
      sort_key_strictly_decreasing)

theorem sequencer_reverses_witness:
  "reverse_history (getFileVersions
       (Some \<lparr>getHistory = (\<lambda>path. Some
           [\<lparr>uid = ''2'', device = ''Bident-of-Thassa.local'', ts = 2, isize = 11\<rparr>,
            \<lparr>uid = ''1'', device = ''bean_machine'', ts = 1, isize = 5\<rparr>]),
          getContentForVersion = (\<lambda>u. if u = ''1'' then ''hello'' else ''hello world'')\<rparr>)
       (Some ''note.md''))
     = [\<lparr>mtime = None, user = ''bean_machine'', hsize = None, content = Some ''hello''\<rparr>,
        \<lparr>mtime = None, user = ''Bident-of-Thassa.local'', hsize = None,
          content = Some ''hello world''\<rparr>]
   \<and> rev [\<lparr>uid = ''2'', device = ''Bident-of-Thassa.local'', ts = 2, isize = 11\<rparr>,
          \<lparr>uid = ''1'', device = ''bean_machine'', ts = 1, isize = 5\<rparr>]
     = sort_key ts
         [\<lparr>uid = ''2'', device = ''Bident-of-Thassa.local'', ts = 2, isize = 11\<rparr>,
          \<lparr>uid = ''1'', device = ''bean_machine'', ts = 1, isize = 5\<rparr>]"
  using sequencer_reverses
    [of "\<lparr>getHistory = (\<lambda>path. Some
           [\<lparr>uid = ''2'', device = ''Bident-of-Thassa.local'', ts = 2, isize = 11\<rparr>,
            \<lparr>uid = ''1'', device = ''bean_machine'', ts = 1, isize = 5\<rparr>]),
          getContentForVersion = (\<lambda>u. if u = ''1'' then ''hello'' else ''hello world'')\<rparr>"
      "''note.md''"
      "[\<lparr>uid = ''2'', device = ''Bident-of-Thassa.local'', ts = 2, isize = 11\<rparr>,
        \<lparr>uid = ''1'', device = ''bean_machine'', ts = 1, isize = 5\<rparr>]"
      diffChars]
  by (simp add: version_of_def)

section \<open>The scenarios of the spec\<close>

lemma diffChars_ab_axb:
  "diffChars (Some ''ab'') (Some ''axb'')
   = Inr [\<lparr>count = 1, added = False, removed = False, cvalue = ''a''\<rparr>,
          \<lparr>count = 1, added = True, removed = False, cvalue = ''x''\<rparr>,
          \<lparr>count = 1, added = False, removed = False, cvalue = ''b''\<rparr>]"
  by code_simp

lemma diffChars_axb_axyb:
  "diffChars (Some ''axb'') (Some ''axyb'')
   = Inr [\<lparr>count = 2, added = False, removed = False, cvalue = ''ax''\<rparr>,
          \<lparr>count = 1, added = True, removed = False, cvalue = ''y''\<rparr>,
          \<lparr>count = 1, added = False, removed = False, cvalue = ''b''\<rparr>]"
  by code_simp

lemma diffChars_hello:
  "diffChars (Some ''hello'') (Some ''hello world'')
   = Inr [\<lparr>count = 5, added = False, removed = False, cvalue = ''hello''\<rparr>,
          \<lparr>count = 6, added = True, removed = False, cvalue = '' world''\<rparr>]"
  by code_simp

lemmas replay_defs =
  getSegmentFromHistory_def change_indices_of_def boundary_loop.simps
  findNextChangeIndex_def find_from.simps js_nth_def js_index_def replay_pair_def
  replay_change_def replace_chars_def js_slice_def Let_def

lemmas group_defs =
  convert_segment_to_groups_def extend_groups_def new_group_def js_nth_def

text \<open>
  C7, as stated, fails for authors that \<^verbatim>\<open>getCharFromUser\<close> does not know: both get the
  label of the padding, and the whole text is one group.
\<close>

theorem append_case_counterexample:
  "getSegmentFromHistory diffChars
     [\<lparr>mtime = None, user = ''A'', hsize = None, content = Some ''hello''\<rparr>,
      \<lparr>mtime = None, user = ''B'', hsize = None, content = Some ''hello world''\<rparr>]
   = Inr ''___________''
   \<and> map (\<lambda>g. (start g, end_pos g, label g)) (convert_segment_to_groups ''___________'')
   = [(0, 11, Some (CHR ''_''))]"
proof -
  have "getSegmentFromHistory diffChars
     [\<lparr>mtime = None, user = ''A'', hsize = None, content = Some ''hello''\<rparr>,
      \<lparr>mtime = None, user = ''B'', hsize = None, content = Some ''hello world''\<rparr>]
   = Inr ''___________''"
    by code_simp
  moreover have "map (\<lambda>g. (start g, end_pos g, label g))
      (convert_segment_to_groups ''___________'') = [(0, 11, Some (CHR ''_''))]"
    by (simp add: group_defs)
  ultimately show ?thesis by simp
qed

text \<open>
  C7, amended. When \<^verbatim>\<open>getCharFromUser\<close> gives the two authors different labels (the two
  known devices, or one of them and any other name), the history \<^verbatim>\<open>hello\<close> by A, then
  \<^verbatim>\<open>hello world\<close> by B, whose edit script keeps five characters and inserts six, gives
  exactly two groups: from 0 to 5 with the label of A and from 5 to 11 with the label
  of B.
\<close>

theorem append_case_two_groups:
  assumes labels: "getCharFromUser A \<noteq> getCharFromUser B"
    and script: "Diff_diffChars (Some ''hello'') (Some ''hello world'')
      = Inr [\<lparr>count = 5, added = False, removed = False, cvalue = ''hello''\<rparr>,
             \<lparr>count = 6, added = True, removed = False, cvalue = '' world''\<rparr>]"
  shows "\<exists>segment.
      getSegmentFromHistory Diff_diffChars
        [\<lparr>mtime = m1, user = A, hsize = z1, content = Some ''hello''\<rparr>,
         \<lparr>mtime = m2, user = B, hsize = z2, content = Some ''hello world''\<rparr>] = Inr segment
    \<and> segment = concat (replicate 5 (getCharFromUser A)) @ concat (replicate 6 (getCharFromUser B))
    \<and> map (\<lambda>g. (start g, end_pos g, label g)) (convert_segment_to_groups segment)
      = [(0, 5, Some (hd (getCharFromUser A))), (5, 11, Some (hd (getCharFromUser B)))]"
proof -
  obtain a where a: "getCharFromUser A = [a]"
    using getCharFromUser_single by blast
  obtain b where b: "getCharFromUser B = [b]"
    using getCharFromUser_single by blast
  from labels a b have ab: "a \<noteq> b" by simp
  from labels have AB: "A \<noteq> B" "B \<noteq> A" by auto
  have seg: "getSegmentFromHistory Diff_diffChars
        [\<lparr>mtime = m1, user = A, hsize = z1, content = Some ''hello''\<rparr>,
         \<lparr>mtime = m2, user = B, hsize = z2, content = Some ''hello world''\<rparr>]
      = Inr [a, a, a, a, a, b, b, b, b, b, b]"
    using AB by (simp add: replay_defs script a b numeral_eq_Suc)
  have grp: "map (\<lambda>g. (start g, end_pos g, label g))
        (convert_segment_to_groups [a, a, a, a, a, b, b, b, b, b, b])
      = [(0, 5, Some a), (5, 11, Some b)]"
    using ab by (simp add: group_defs)
  show ?thesis
    using seg grp by (simp add: a b numeral_eq_Suc)
qed

theorem append_case_two_groups_witness:
  "getCharFromUser ''bean_machine'' \<noteq> getCharFromUser ''Bident-of-Thassa.local''
   \<and> getSegmentFromHistory diffChars
        [\<lparr>mtime = None, user = ''bean_machine'', hsize = None, content = Some ''hello''\<rparr>,
         \<lparr>mtime = None, user = ''Bident-of-Thassa.local'', hsize = None,
           content = Some ''hello world''\<rparr>] = Inr ''bbbbbTTTTTT''
   \<and> map (\<lambda>g. (start g, end_pos g, label g)) (convert_segment_to_groups ''bbbbbTTTTTT'')
      = [(0, 5, Some (CHR ''b'')), (5, 11, Some (CHR ''T''))]"
  using append_case_two_groups
    [of "''bean_machine''" "''Bident-of-Thassa.local''" diffChars None None None None]
  by (simp add: diffChars_hello getCharFromUser_def numeral_eq_Suc)

text \<open>
  C1, as stated, fails: in the second pair the unchanged characters are relabelled with
  the outgoing author, who is B, so B ends up with the indices 0, 1 and 3 and A keeps
  only the character it inserted last.
\<close>

theorem three_snapshots_counterexample:
  "getSegmentFromHistory diffChars
     [\<lparr>mtime = None, user = ''bean_machine'', hsize = None, content = Some ''ab''\<rparr>,
      \<lparr>mtime = None, user = ''Bident-of-Thassa.local'', hsize = None, content = Some ''axb''\<rparr>,
      \<lparr>mtime = None, user = ''bean_machine'', hsize = None, content = Some ''axyb''\<rparr>]
   = Inr ''TTbT''
   \<and> getSegmentFromHistory diffChars
     [\<lparr>mtime = None, user = ''bean_machine'', hsize = None, content = Some ''ab''\<rparr>,
      \<lparr>mtime = None, user = ''Bident-of-Thassa.local'', hsize = None, content = Some ''axb''\<rparr>,
      \<lparr>mtime = None, user = ''bean_machine'', hsize = None, content = Some ''axyb''\<rparr>]
   \<noteq> Inr (getCharFromUser ''bean_machine'' @ getCharFromUser ''Bident-of-Thassa.local''
          @ getCharFromUser ''bean_machine'' @ getCharFromUser ''bean_machine'')"
  by code_simp

text \<open>
  C1, amended. For the history \<^verbatim>\<open>ab\<close> by A, \<^verbatim>\<open>axb\<close> by B, \<^verbatim>\<open>axyb\<close> by A, with the edit
  scripts that insert \<^verbatim>\<open>x\<close> at index 1 and \<^verbatim>\<open>y\<close> at index 2, the first pair alone labels
  the indices 0, 1, 2 with A, B, A; the second pair then relabels the whole buffer, and
  the final buffer over \<^verbatim>\<open>axyb\<close> has the labels of B, B, A, B at the indices 0 to 3:
  the later pair's labels overwrite the earlier pair's.
\<close>

theorem three_snapshots_last_write_wins:
  assumes AB: "A \<noteq> B"
    and script1: "Diff_diffChars (Some ''ab'') (Some ''axb'')
      = Inr [\<lparr>count = 1, added = False, removed = False, cvalue = ''a''\<rparr>,
             \<lparr>count = 1, added = True, removed = False, cvalue = ''x''\<rparr>,
             \<lparr>count = 1, added = False, removed = False, cvalue = ''b''\<rparr>]"
    and script2: "Diff_diffChars (Some ''axb'') (Some ''axyb'')
      = Inr [\<lparr>count = 2, added = False, removed = False, cvalue = ''ax''\<rparr>,
             \<lparr>count = 1, added = True, removed = False, cvalue = ''y''\<rparr>,
             \<lparr>count = 1, added = False, removed = False, cvalue = ''b''\<rparr>]"
  shows "getSegmentFromHistory Diff_diffChars
        [\<lparr>mtime = m1, user = A, hsize = z1, content = Some ''ab''\<rparr>,
         \<lparr>mtime = m2, user = B, hsize = z2, content = Some ''axb''\<rparr>]
      = Inr (getCharFromUser A @ getCharFromUser B @ getCharFromUser A)
    \<and> getSegmentFromHistory Diff_diffChars
        [\<lparr>mtime = m1, user = A, hsize = z1, content = Some ''ab''\<rparr>,
         \<lparr>mtime = m2, user = B, hsize = z2, content = Some ''axb''\<rparr>,
         \<lparr>mtime = m3, user = A, hsize = z3, content = Some ''axyb''\<rparr>]
      = Inr (getCharFromUser B @ getCharFromUser B @ getCharFromUser A @ getCharFromUser B)"
proof -
  obtain a where a: "getCharFromUser A = [a]"
    using getCharFromUser_single by blast
  obtain b where b: "getCharFromUser B = [b]"
    using getCharFromUser_single by blast
  from AB have BA: "B \<noteq> A" by auto
  have two: "getSegmentFromHistory Diff_diffChars
        [\<lparr>mtime = m1, user = A, hsize = z1, content = Some ''ab''\<rparr>,
         \<lparr>mtime = m2, user = B, hsize = z2, content = Some ''axb''\<rparr>]
      = Inr [a, b, a]"
    using AB BA by (simp add: replay_defs script1 a b numeral_eq_Suc)
  have three: "getSegmentFromHistory Diff_diffChars
        [\<lparr>mtime = m1, user = A, hsize = z1, content = Some ''ab''\<rparr>,
         \<lparr>mtime = m2, user = B, hsize = z2, content = Some ''axb''\<rparr>,
         \<lparr>mtime = m3, user = A, hsize = z3, content = Some ''axyb''\<rparr>]
      = Inr [b, b, a, b]"
    using AB BA by (simp add: replay_defs script1 script2 a b numeral_eq_Suc)
  show ?thesis
    using two three by (simp add: a b)
qed

theorem three_snapshots_last_write_wins_witness:
  "getSegmentFromHistory diffChars
     [\<lparr>mtime = None, user = ''bean_machine'', hsize = None, content = Some ''ab''\<rparr>,
      \<lparr>mtime = None, user = ''Bident-of-Thassa.local'', hsize = None, content = Some ''axb''\<rparr>]
   = Inr ''bTb''
   \<and> getSegmentFromHistory diffChars
     [\<lparr>mtime = None, user = ''bean_machine'', hsize = None, content = Some ''ab''\<rparr>,
      \<lparr>mtime = None, user = ''Bident-of-Thassa.local'', hsize = None, content = Some ''axb''\<rparr>,
      \<lparr>mtime = None, user = ''bean_machine'', hsize = None, content = Some ''axyb''\<rparr>]
   = Inr ''TTbT''"
  using three_snapshots_last_write_wins
    [of "''bean_machine''" "''Bident-of-Thassa.local''" diffChars None None None None None None]
  by (simp add: diffChars_ab_axb diffChars_axb_axyb getCharFromUser_def)

section \<open>Missing contents\<close>









end
